theory Spec2Isabelle
  imports Complex_Main "HOL-Library.Multiset"
begin

section \<open>The downloader of downloader_cn.py\<close>

text \<open>
  The theory embeds \<^verbatim>\<open>download_one\<close> and the counting part of \<^verbatim>\<open>main\<close>
  of \<^verbatim>\<open>src/downloader_cn.py\<close>. Everything the two functions take from outside
  the program is a parameter: the directory \<^verbatim>\<open>DATA_DIR\<close>, the clock, what the
  remote service answers to each attempt and how each write to disk ends.
  Exceptions are values of a sum type, the file system and the log of effects
  are passed as an explicit state. Times are real numbers of seconds. During a
  call the file system changes by the writes of that call only, and the calls
  of the pool run one after the other.
\<close>

subsection \<open>Exceptions, strings, paths\<close>

text \<open>
  The exceptions of the model. \<^verbatim>\<open>RemoteError\<close> stands for whatever the remote
  query raises and \<^verbatim>\<open>FrameError\<close> for whatever the normalisation of a frame
  raises; the program catches both as \<^verbatim>\<open>Exception\<close>.
\<close>

datatype exn = ValueError | IndexError | KeyError | OSError | RemoteError | FrameError

text \<open>
  \<^verbatim>\<open>item.split('&', 1)\<close>: at most one split, at the first separator.
  A string without the separator comes back whole, as the only element.
\<close>

definition split_once :: "char \<Rightarrow> string \<Rightarrow> string list" where
  "split_once sep s =
     (if sep \<in> set s
      then [takeWhile (\<lambda>c. c \<noteq> sep) s, tl (dropWhile (\<lambda>c. c \<noteq> sep) s)]
      else [s])"

text \<open>\<^verbatim>\<open>item.split('&')\<close>: a split at every separator.\<close>

fun split_all :: "char \<Rightarrow> string \<Rightarrow> string list" where
  "split_all sep [] = [[]]"
| "split_all sep (c # cs) =
     (if c = sep then [] # split_all sep cs
      else (case split_all sep cs of
              [] \<Rightarrow> [[c]]
            | w # ws \<Rightarrow> (c # w) # ws))"

text \<open>
  \<^verbatim>\<open>code, name = ...\<close> raises ValueError unless the list has exactly two
  elements; \<^verbatim>\<open>...[0]\<close> raises IndexError on the empty list.
\<close>

fun unpack_pair :: "string list \<Rightarrow> exn + (string \<times> string)" where
  "unpack_pair [a, b] = Inr (a, b)"
| "unpack_pair _ = Inl ValueError"

fun first :: "string list \<Rightarrow> exn + string" where
  "first [] = Inl IndexError"
| "first (x # _) = Inr x"

definition startswith :: "string \<Rightarrow> string \<Rightarrow> bool" where
  "startswith s p = (take (length p) s = p)"

text \<open>
  \<^verbatim>\<open>os.path.join\<close> on two components (POSIX): an absolute second component
  replaces the first one, otherwise the two are joined by one slash.
\<close>

definition path_join :: "string \<Rightarrow> string \<Rightarrow> string" where
  "path_join a b =
     (if startswith b ''/'' then b
      else if a = [] \<or> last a = CHR ''/'' then a @ b
      else a @ ''/'' @ b)"

subsection \<open>The file system, the remote service and the log\<close>

record artifact =
  mtime :: real
  content :: string

type_synonym fs = "string \<rightharpoonup> artifact"

text \<open>
  What \<^verbatim>\<open>tk.history(...)\<close> gives: it raises, or it returns \<^verbatim>\<open>None\<close> or a
  frame. Of a frame the program looks at \<^verbatim>\<open>hist.empty\<close>; the column
  normalisation of lines 106 to 109 may raise on it; \<^verbatim>\<open>csv\<close> is the text that
  \<^verbatim>\<open>to_csv\<close> produces from the normalised frame.
\<close>

record frame =
  frame_empty :: bool
  normalise_raises :: bool
  csv :: string

datatype response = Raises | Returns "frame option"

text \<open>
  How one call of \<^verbatim>\<open>hist.to_csv(out_path, ...)\<close> ends. The library opens the
  destination itself for writing and streams the text into it; the program
  hands it the final path, there is no temporary file and no rename. So a call
  that fails after the open leaves the bytes written so far at the path.
\<close>

datatype write_end = Written | OpenFails | FailsAfter nat

definition to_csv :: "write_end \<Rightarrow> real \<Rightarrow> string \<Rightarrow> string \<Rightarrow> fs \<Rightarrow> exn option \<times> fs" where
  "to_csv w t path txt fs =
     (case w of
        Written \<Rightarrow> (None, fs(path \<mapsto> \<lparr>mtime = t, content = txt\<rparr>))
      | OpenFails \<Rightarrow> (Some OSError, fs)
      | FailsAfter k \<Rightarrow> (Some OSError, fs(path \<mapsto> \<lparr>mtime = t, content = take k txt\<rparr>)))"

text \<open>
  The surroundings of one call of \<^verbatim>\<open>download_one\<close>: the constant
  \<^verbatim>\<open>DATA_DIR\<close>, the reading of \<^verbatim>\<open>time.time()\<close> at the freshness check, the
  answer of the remote service to the query for a symbol in attempt n, and the
  end and the time of the write of attempt n.
\<close>

record env =
  DATA_DIR :: string
  clock :: real
  history :: "string \<Rightarrow> nat \<Rightarrow> response"
  write_ends :: "nat \<Rightarrow> write_end"
  write_time :: "nat \<Rightarrow> real"

text \<open>
  The log of the effects of one call, oldest first, each with the number of the
  attempt: the jitter sleep of line 100, the remote query of lines 102 and 103,
  the call of \<^verbatim>\<open>to_csv\<close> of line 111, the entry into the handler of line 117
  and the backoff sleep of line 120.
\<close>

datatype event =
    Jitter nat
  | Fetch nat string
  | Write nat string
  | Caught nat
  | is_Backoff: Backoff nat

record state =
  files :: fs
  trace :: "event list"

definition log_events :: "event list \<Rightarrow> state \<Rightarrow> state" where
  "log_events es s = s\<lparr>trace := trace s @ es\<rparr>"

subsection \<open>Outcomes\<close>

text \<open>The dictionary \<^verbatim>\<open>{"status": st, "code": code}\<close> that \<^verbatim>\<open>download_one\<close> returns.\<close>

type_synonym outcome = "string \<rightharpoonup> string"

definition outcome :: "string \<Rightarrow> string \<Rightarrow> outcome" where
  "outcome st code = [''status'' \<mapsto> st, ''code'' \<mapsto> code]"

subsection \<open>download_one\<close>

definition DATA_EXPIRY_SECONDS :: real where
  "DATA_EXPIRY_SECONDS = 3600"

definition max_retries :: nat where
  "max_retries = 3"

text \<open>Line 86: the query key, with the suffix of the exchange.\<close>

definition symbol_of :: "string \<Rightarrow> string" where
  "symbol_of code = (if startswith code ''6'' then code @ ''.SS'' else code @ ''.SZ'')"

text \<open>Line 87: the path of the artifact.\<close>

definition out_path_of :: "env \<Rightarrow> string \<Rightarrow> string \<Rightarrow> string" where
  "out_path_of e code name = path_join (DATA_DIR e) (code @ ''_'' @ name @ ''.csv'')"

text \<open>Lines 90 to 94: the artifact is there, younger than the expiry, and larger than 1000 bytes.\<close>

definition fresh :: "env \<Rightarrow> fs \<Rightarrow> string \<Rightarrow> bool" where
  "fresh e fs out_path =
     (case fs out_path of
        None \<Rightarrow> False
      | Some f \<Rightarrow>
          (let file_age = clock e - mtime f
           in file_age < DATA_EXPIRY_SECONDS \<and> length (content f) > 1000))"

text \<open>The frame, when \<^verbatim>\<open>hist is not None and not hist.empty\<close> holds.\<close>

definition rows_of :: "frame option \<Rightarrow> frame option" where
  "rows_of hist =
     (case hist of
        None \<Rightarrow> None
      | Some fr \<Rightarrow> if frame_empty fr then None else Some fr)"

text \<open>
  Lines 106 to 112: the frame is normalised and written to the artifact path.
  The result is \<^verbatim>\<open>Inl\<close> for an exception and \<^verbatim>\<open>Inr res\<close> for \<^verbatim>\<open>return res\<close>.
\<close>

definition persist ::
  "env \<Rightarrow> string \<Rightarrow> string \<Rightarrow> nat \<Rightarrow> frame \<Rightarrow> state \<Rightarrow> (exn + outcome) \<times> state" where
  "persist e out_path code attempt fr s =
     (if normalise_raises fr then (Inl FrameError, s)
      else
        (let s' = log_events [Write attempt out_path] s in
         case to_csv (write_ends e attempt) (write_time e attempt) out_path (csv fr) (files s') of
           (Some x, fs') \<Rightarrow> (Inl x, s'\<lparr>files := fs'\<rparr>)
         | (None, fs') \<Rightarrow> (Inr (outcome ''success'' code), s'\<lparr>files := fs'\<rparr>)))"

text \<open>
  The body of the inner \<^verbatim>\<open>try\<close> (lines 99 to 115) in one attempt. The result is
  \<^verbatim>\<open>Inl\<close> for an exception, \<^verbatim>\<open>Inr (Some res)\<close> for \<^verbatim>\<open>return res\<close> and
  \<^verbatim>\<open>Inr None\<close> when the body runs to its end.
\<close>

definition attempt_body ::
  "env \<Rightarrow> string \<Rightarrow> string \<Rightarrow> string \<Rightarrow> nat \<Rightarrow> state \<Rightarrow> (exn + outcome option) \<times> state" where
  "attempt_body e symbol out_path code attempt s =
     (let s1 = log_events [Jitter attempt, Fetch attempt symbol] s in
      case history e symbol attempt of
        Raises \<Rightarrow> (Inl RemoteError, s1)
      | Returns hist \<Rightarrow>
          (case rows_of hist of
             Some fr \<Rightarrow>
               (case persist e out_path code attempt fr s1 of
                  (Inl x, s2) \<Rightarrow> (Inl x, s2)
                | (Inr res, s2) \<Rightarrow> (Inr (Some res), s2))
           | None \<Rightarrow>
               if attempt = max_retries - 1 then (Inr (Some (outcome ''empty'' code)), s1)
               else (Inr None, s1)))"

text \<open>
  The loop \<^verbatim>\<open>for attempt in range(max_retries)\<close> with its handler (lines 97 to
  120), over the list of the attempt numbers still to run. \<^verbatim>\<open>None\<close> is a loop
  that ends without a \<^verbatim>\<open>return\<close>.
\<close>

fun retry_loop ::
  "env \<Rightarrow> string \<Rightarrow> string \<Rightarrow> string \<Rightarrow> nat list \<Rightarrow> state \<Rightarrow> outcome option \<times> state" where
  "retry_loop e symbol out_path code [] s = (None, s)"
| "retry_loop e symbol out_path code (attempt # rest) s =
     (case attempt_body e symbol out_path code attempt s of
        (Inr (Some res), s') \<Rightarrow> (Some res, s')
      | (Inr None, s') \<Rightarrow> retry_loop e symbol out_path code rest s'
      | (Inl x, s') \<Rightarrow>
          (let s'' = log_events [Caught attempt] s' in
           if attempt = max_retries - 1 then (Some (outcome ''error'' code), s'')
           else retry_loop e symbol out_path code rest (log_events [Backoff attempt] s'')))"

text \<open>Lines 85 to 120 and line 124: the body of the outer \<^verbatim>\<open>try\<close> and the last \<^verbatim>\<open>return\<close>.\<close>

definition try_body :: "env \<Rightarrow> state \<Rightarrow> string \<Rightarrow> (exn + outcome) \<times> state" where
  "try_body e s item =
     (case unpack_pair (split_once CHR ''&'' item) of
        Inl x \<Rightarrow> (Inl x, s)
      | Inr (code, name) \<Rightarrow>
          (let symbol = symbol_of code;
               out_path = out_path_of e code name
           in if fresh e (files s) out_path then (Inr (outcome ''exists'' code), s)
              else (case retry_loop e symbol out_path code [0..<max_retries] s of
                      (Some res, s') \<Rightarrow> (Inr res, s')
                    | (None, s') \<Rightarrow> (Inr (outcome ''error'' code), s'))))"

text \<open>
  \<^verbatim>\<open>download_one\<close> with the handler of lines 121 and 122. \<^verbatim>\<open>Inl\<close> is an
  exception that leaves the function.
\<close>

definition download_one :: "env \<Rightarrow> fs \<Rightarrow> string \<Rightarrow> exn + (outcome \<times> state)" where
  "download_one e fs item =
     (case try_body e \<lparr>files = fs, trace = []\<rparr> item of
        (Inr res, s) \<Rightarrow> Inr (res, s)
      | (Inl x, s) \<Rightarrow>
          (case first (split_all CHR ''&'' item) of
             Inl y \<Rightarrow> Inl y
           | Inr c \<Rightarrow> Inr (outcome ''error'' c, s)))"

subsection \<open>main\<close>

text \<open>
  The pool of lines 135 and 136 runs \<^verbatim>\<open>download_one\<close> once for every element of
  \<^verbatim>\<open>items\<close>; the k-th call meets the surroundings \<^verbatim>\<open>envs k\<close>. The calls are
  run one after the other on the shared file system, and \<^verbatim>\<open>f.result()\<close> raises
  again what a call raised.
\<close>

fun run_pool :: "(nat \<Rightarrow> env) \<Rightarrow> nat \<Rightarrow> fs \<Rightarrow> string list \<Rightarrow> exn + (outcome list \<times> fs)" where
  "run_pool envs k fs [] = Inr ([], fs)"
| "run_pool envs k fs (it # items) =
     (case download_one (envs k) fs it of
        Inl x \<Rightarrow> Inl x
      | Inr (res, s) \<Rightarrow>
          (case run_pool envs (Suc k) (files s) items of
             Inl x \<Rightarrow> Inl x
           | Inr (outs, fs') \<Rightarrow> Inr (res # outs, fs')))"

text \<open>\<^verbatim>\<open>res.get("status", "error")\<close>\<close>

definition get_status :: "outcome \<Rightarrow> string" where
  "get_status res = (case res ''status'' of None \<Rightarrow> ''error'' | Some st \<Rightarrow> st)"

text \<open>Line 133, the dictionary of the four counters.\<close>

definition stats_init :: "string \<rightharpoonup> int" where
  "stats_init = [''success'' \<mapsto> 0, ''exists'' \<mapsto> 0, ''empty'' \<mapsto> 0, ''error'' \<mapsto> 0]"

text \<open>
  Lines 139 to 141 over the results in the order of their arrival:
  \<^verbatim>\<open>stats[key] += 1\<close> raises KeyError for a key that the dictionary lacks.
\<close>

fun tally :: "(string \<rightharpoonup> int) \<Rightarrow> outcome list \<Rightarrow> exn + (string \<rightharpoonup> int)" where
  "tally stats [] = Inr stats"
| "tally stats (res # outs) =
     (case stats (get_status res) of
        None \<Rightarrow> Inl KeyError
      | Some n \<Rightarrow> tally (stats(get_status res \<mapsto> n + 1)) outs)"

record run_statistics =
  total :: int
  success :: int
  fail :: int

text \<open>Lines 145 to 153.\<close>

definition download_stats :: "string list \<Rightarrow> (string \<rightharpoonup> int) \<Rightarrow> exn + run_statistics" where
  "download_stats items stats =
     (case (stats ''success'', stats ''exists'', stats ''error'', stats ''empty'') of
        (Some s, Some x, Some r, Some m) \<Rightarrow>
          (let total_expected = int (length items);
               effective_success = s + x;
               fail_count = r + m
           in Inr \<lparr>total = total_expected, success = effective_success, fail = fail_count\<rparr>)
      | _ \<Rightarrow> Inl KeyError)"

text \<open>The reduction of lines 133 to 153 on the results as they arrive.\<close>

definition aggregate :: "string list \<Rightarrow> outcome list \<Rightarrow> exn + run_statistics" where
  "aggregate items outs =
     (case tally stats_init outs of
        Inl x \<Rightarrow> Inl x
      | Inr stats \<Rightarrow> download_stats items stats)"

definition main :: "(nat \<Rightarrow> env) \<Rightarrow> fs \<Rightarrow> string list \<Rightarrow> exn + run_statistics" where
  "main envs fs items =
     (case run_pool envs 0 fs items of
        Inl x \<Rightarrow> Inl x
      | Inr (outs, fs') \<Rightarrow> aggregate items outs)"

subsection \<open>Auxiliary definitions for the proofs\<close>

text \<open>The four values of \<^verbatim>\<open>status\<close>, the keys of the dictionary of line 133.\<close>

definition tags :: "string set" where
  "tags = {''success'', ''exists'', ''empty'', ''error''}"

text \<open>
  A check of where the backoff sleeps stand in a log, given the event before it:
  each follows the entry into the handler of its own attempt, belongs to an
  attempt that is not the last one, and is followed by the jitter sleep of the
  next attempt.
\<close>

fun placed :: "event option \<Rightarrow> event list \<Rightarrow> bool" where
  "placed prev [] = True"
| "placed prev (ev # es) =
     ((case ev of
         Backoff n \<Rightarrow>
           prev = Some (Caught n) \<and> Suc n < max_retries \<and>
           (case es of [] \<Rightarrow> False | nx # _ \<Rightarrow> nx = Jitter (Suc n))
       | _ \<Rightarrow> True)
      \<and> placed (Some ev) es)"

subsection \<open>Concrete runs\<close>

text \<open>
  Surroundings and file systems on which the functions are evaluated: a frame
  with rows, a service that answers every query with rows and a disk that takes
  every write; a service that raises on every query; a first answer with rows
  on a disk that refuses every open, followed by answers without rows; a disk on
  which every write fails after four bytes; a first answer with rows
  whose write fails after 1500 bytes, followed by answers without rows; an old
  artifact, and an artifact of 5000 bytes written ten minutes before the clock
  of the surroundings.
\<close>

definition frame_rows :: "string \<Rightarrow> frame" where
  "frame_rows txt = \<lparr>frame_empty = False, normalise_raises = False, csv = txt\<rparr>"

definition env_ok :: env where
  "env_ok =
     \<lparr>DATA_DIR = ''/data'', clock = 10000,
      history = (\<lambda>symbol n. Returns (Some (frame_rows ''date,close''))),
      write_ends = (\<lambda>n. Written),
      write_time = (\<lambda>n. 10001)\<rparr>"

definition env_raising :: env where
  "env_raising =
     \<lparr>DATA_DIR = ''/data'', clock = 10000,
      history = (\<lambda>symbol n. Raises),
      write_ends = (\<lambda>n. Written),
      write_time = (\<lambda>n. 10001)\<rparr>"

definition env_refused :: env where
  "env_refused =
     \<lparr>DATA_DIR = ''/data'', clock = 10000,
      history = (\<lambda>symbol n. if n = 0 then Returns (Some (frame_rows ''date,close'')) else Returns None),
      write_ends = (\<lambda>n. OpenFails),
      write_time = (\<lambda>n. 10001)\<rparr>"

definition env_partial :: env where
  "env_partial =
     \<lparr>DATA_DIR = ''/data'', clock = 10000,
      history = (\<lambda>symbol n. Returns (Some (frame_rows ''date,close''))),
      write_ends = (\<lambda>n. FailsAfter 4),
      write_time = (\<lambda>n. 10001 + real n)\<rparr>"

definition env_lost :: env where
  "env_lost =
     \<lparr>DATA_DIR = ''/data'', clock = 50,
      history = (\<lambda>symbol n. if n = 0 then Returns (Some (frame_rows (replicate 2000 CHR ''x''))) else Returns None),
      write_ends = (\<lambda>n. FailsAfter 1500),
      write_time = (\<lambda>n. 100)\<rparr>"

definition fs_old :: fs where
  "fs_old = [''/data/600519_x.csv'' \<mapsto> \<lparr>mtime = 0, content = ''date,open''\<rparr>]"

definition fs_fresh :: fs where
  "fs_fresh = [''/data/600519_x.csv'' \<mapsto> \<lparr>mtime = 9400, content = replicate 5000 CHR ''x''\<rparr>]"

section \<open>Properties\<close>

subsection \<open>Splitting and the malformed identifier\<close>

lemma split_once_none: "sep \<notin> set s \<Longrightarrow> split_once sep s = [s]"
  by (simp add: split_once_def)

lemma split_once_first:
  "sep \<notin> set a \<Longrightarrow> split_once sep (a @ sep # b) = [a, b]"
  by (induction a) (auto simp: split_once_def)

lemma split_all_none: "sep \<notin> set s \<Longrightarrow> split_all sep s = [s]"
  by (induction s) auto

lemma split_all_not_Nil: "split_all sep s \<noteq> []"
  by (induction s) (auto split: list.splits)

lemma first_split_all: "\<exists>c. first (split_all sep s) = Inr c"
  by (cases "split_all sep s") (auto simp: split_all_not_Nil)

lemma try_body_malformed:
  "CHR ''&'' \<notin> set item \<Longrightarrow> try_body e s item = (Inl ValueError, s)"
  by (simp add: try_body_def split_once_none)

lemma download_one_malformed:
  "CHR ''&'' \<notin> set item \<Longrightarrow>
   download_one e fs item = Inr (outcome ''error'' item, \<lparr>files = fs, trace = []\<rparr>)"
  by (simp add: download_one_def try_body_malformed split_all_none)

lemma outcome_status: "outcome st code ''status'' = Some st"
  by (simp add: outcome_def)

lemma outcome_code: "outcome st code ''code'' = Some code"
  by (simp add: outcome_def)

lemma persist_result:
  "persist e out_path code attempt fr s = (r, s') \<Longrightarrow>
   (\<exists>x. r = Inl x) \<or> r = Inr (outcome ''success'' code)"
  by (auto simp: persist_def Let_def split: if_splits prod.splits option.splits)

lemma attempt_body_result:
  "attempt_body e symbol out_path code attempt s = (Inr (Some res), s') \<Longrightarrow>
   res = outcome ''success'' code \<or> res = outcome ''empty'' code"
  by (auto simp: attempt_body_def Let_def dest: persist_result
      split: response.splits option.splits prod.splits sum.splits if_splits)

lemma retry_loop_result:
  "retry_loop e symbol out_path code ns s = (Some res, s') \<Longrightarrow>
   res = outcome ''success'' code \<or> res = outcome ''empty'' code \<or> res = outcome ''error'' code"
proof (induction ns arbitrary: s)
  case Nil
  then show ?case by simp
next
  case (Cons n ns)
  obtain r s1 where a: "attempt_body e symbol out_path code n s = (r, s1)"
    by (cases "attempt_body e symbol out_path code n s")
  show ?case
  proof (cases r)
    case (Inl x)
    with a Cons show ?thesis
      by (auto simp: Let_def split: if_splits)
  next
    case (Inr ro)
    with a Cons show ?thesis
      by (cases ro) (auto dest: attempt_body_result)
  qed
qed

lemma try_body_result:
  "try_body e s item = (Inr res, s') \<Longrightarrow> \<exists>st code. st \<in> tags \<and> res = outcome st code"
  by (auto simp: try_body_def Let_def tags_def dest!: retry_loop_result
      split: sum.splits prod.splits if_splits option.splits)

lemma download_one_returns:
  "\<exists>st code s. st \<in> tags \<and> download_one e fs item = Inr (outcome st code, s)"
proof -
  obtain r s where t: "try_body e \<lparr>files = fs, trace = []\<rparr> item = (r, s)"
    by (cases "try_body e \<lparr>files = fs, trace = []\<rparr> item")
  show ?thesis
  proof (cases r)
    case (Inl x)
    obtain c where "first (split_all CHR ''&'' item) = Inr c"
      using first_split_all by blast
    with t Inl have "download_one e fs item = Inr (outcome ''error'' c, s)"
      by (simp add: download_one_def)
    then show ?thesis by (auto simp: tags_def)
  next
    case (Inr res)
    with t obtain st code where "st \<in> tags" "res = outcome st code"
      using try_body_result by blast
    with t Inr show ?thesis by (auto simp: download_one_def)
  qed
qed

lemma run_pool_returns:
  "\<exists>outs fs'. run_pool envs k fs items = Inr (outs, fs') \<and> length outs = length items
     \<and> (\<forall>res \<in> set outs. \<exists>st code. st \<in> tags \<and> res = outcome st code)"
proof (induction items arbitrary: k fs)
  case Nil
  show ?case by simp
next
  case (Cons it items)
  obtain st code s where d: "st \<in> tags" "download_one (envs k) fs it = Inr (outcome st code, s)"
    using download_one_returns by blast
  obtain outs fs' where r: "run_pool envs (Suc k) (files s) items = Inr (outs, fs')"
    "length outs = length items" "\<forall>res \<in> set outs. \<exists>st code. st \<in> tags \<and> res = outcome st code"
    using Cons.IH by blast
  from d r show ?case by auto
qed

subsection \<open>The counters\<close>

lemma tally_closed:
  "tally stats outs =
     (if \<forall>res \<in> set outs. get_status res \<in> dom stats
      then Inr (\<lambda>k. map_option (\<lambda>n. n + int (count (mset (map get_status outs)) k)) (stats k))
      else Inl KeyError)"
proof (induction outs arbitrary: stats)
  case Nil
  show ?case by (simp add: option.map_ident)
next
  case (Cons res outs)
  show ?case
  proof (cases "stats (get_status res)")
    case None
    then show ?thesis by (auto simp: dom_def)
  next
    case (Some n)
    then have d: "dom (stats(get_status res \<mapsto> n + 1)) = dom stats"
      by auto
    have "(\<lambda>k. map_option (\<lambda>m. m + int (count (mset (map get_status outs)) k))
                ((stats(get_status res \<mapsto> n + 1)) k))
        = (\<lambda>k. map_option (\<lambda>m. m + int (count (mset (map get_status (res # outs))) k)) (stats k))"
      using Some by (auto simp: fun_eq_iff)
    with Some d show ?thesis
      by (simp add: Cons.IH) (auto simp: dom_def)
  qed
qed

lemma tally_perm:
  "mset outs = mset outs' \<Longrightarrow> tally stats outs = tally stats outs'"
proof -
  assume m: "mset outs = mset outs'"
  then have "set outs = set outs'"
    by (rule mset_eq_setD)
  moreover from m have "mset (map get_status outs) = mset (map get_status outs')"
    by (metis mset_map)
  ultimately show ?thesis
    by (simp add: tally_closed)
qed

lemma count_two:
  "a \<noteq> b \<Longrightarrow>
   int (count (mset (map g xs)) a) + int (count (mset (map g xs)) b)
     = int (length (filter (\<lambda>x. g x \<in> {a, b}) xs))"
  by (induction xs) auto

lemma length_by_tags:
  "\<forall>x \<in> set xs. g x \<in> tags \<Longrightarrow>
   length xs = length (filter (\<lambda>x. g x \<in> {''success'', ''exists''}) xs)
             + length (filter (\<lambda>x. g x \<in> {''error'', ''empty''}) xs)"
  by (induction xs) (auto simp: tags_def)

lemma get_status_outcome: "get_status (outcome st code) = st"
  by (simp add: get_status_def outcome_def)

lemma dom_stats_init: "dom stats_init = tags"
  by (auto simp: stats_init_def tags_def)

lemma aggregate_valid:
  assumes "\<forall>res \<in> set outs. get_status res \<in> tags"
  shows "aggregate items outs =
     Inr \<lparr>total = int (length items),
          success = int (length (filter (\<lambda>res. get_status res \<in> {''success'', ''exists''}) outs)),
          fail = int (length (filter (\<lambda>res. get_status res \<in> {''error'', ''empty''}) outs))\<rparr>"
proof -
  have s: "int (count (mset (map get_status outs)) ''success'') + int (count (mset (map get_status outs)) ''exists'')
      = int (length (filter (\<lambda>res. get_status res \<in> {''success'', ''exists''}) outs))"
    by (rule count_two) simp
  have f: "int (count (mset (map get_status outs)) ''error'') + int (count (mset (map get_status outs)) ''empty'')
      = int (length (filter (\<lambda>res. get_status res \<in> {''error'', ''empty''}) outs))"
    by (rule count_two) simp
  from assms have "tally stats_init outs =
      Inr (\<lambda>k. map_option (\<lambda>n. n + int (count (mset (map get_status outs)) k)) (stats_init k))"
    by (simp add: tally_closed dom_stats_init)
  then show ?thesis
    using s f by (simp add: aggregate_def download_stats_def stats_init_def)
qed

subsection \<open>One attempt\<close>

lemma outcome_eq: "outcome st c = outcome st' c' \<longleftrightarrow> st = st' \<and> c = c'"
proof
  assume h: "outcome st c = outcome st' c'"
  from h have "outcome st c ''status'' = outcome st' c' ''status''" by simp
  moreover from h have "outcome st c ''code'' = outcome st' c' ''code''" by simp
  ultimately show "st = st' \<and> c = c'" by (simp add: outcome_def)
qed simp

lemmas attempt_defs = attempt_body_def persist_def to_csv_def log_events_def rows_of_def Let_def
lemmas attempt_splits = response.splits option.splits prod.splits sum.splits if_splits write_end.splits

lemma attempt_frame:
  "attempt_body e symbol p code k s = (r, s') \<Longrightarrow> q \<noteq> p \<Longrightarrow> files s' q = files s q"
  by (auto simp: attempt_defs split: attempt_splits)

lemma attempt_trace:
  "attempt_body e symbol p code k s = (r, s') \<Longrightarrow>
   (trace s' = trace s @ [Jitter k, Fetch k symbol] \<and> files s' = files s)
   \<or> trace s' = trace s @ [Jitter k, Fetch k symbol, Write k p]"
  by (auto simp: attempt_defs split: attempt_splits)

lemma attempt_returns:
  "attempt_body e symbol p code k s = (Inr (Some res), s') \<Longrightarrow>
   (res = outcome ''empty'' code \<and> files s' = files s) \<or>
   (res = outcome ''success'' code \<and>
     (\<exists>fr. history e symbol k = Returns (Some fr) \<and> write_ends e k = Written
         \<and> Write k p \<in> set (trace s')
         \<and> files s' p = Some \<lparr>mtime = write_time e k, content = csv fr\<rparr>))"
  by (auto simp: attempt_defs split: attempt_splits)

lemma attempt_falls_through:
  "attempt_body e symbol p code k s = (Inr None, s') \<Longrightarrow> files s' = files s"
  by (auto simp: attempt_defs split: attempt_splits)

lemma attempt_raises:
  "attempt_body e symbol p code k s = (Inl x, s') \<Longrightarrow>
   files s' = files s \<or>
   (\<exists>fr j. history e symbol k = Returns (Some fr) \<and> write_ends e k = FailsAfter j
       \<and> Write k p \<in> set (trace s')
       \<and> files s' p = Some \<lparr>mtime = write_time e k, content = take j (csv fr)\<rparr>)"
  by (auto simp: attempt_defs split: attempt_splits)

subsection \<open>The retry loop\<close>

lemma log_events_simps [simp]:
  "files (log_events es s) = files s"
  "trace (log_events es s) = trace s @ es"
  by (simp_all add: log_events_def)

lemma retry_loop_Cons_cases:
  assumes "retry_loop e symbol p code (k # ns) s = (r, s')"
  obtains
    (returned) res where
      "attempt_body e symbol p code k s = (Inr (Some res), s')" "r = Some res"
  | (continued) s1 where
      "attempt_body e symbol p code k s = (Inr None, s1)"
      "retry_loop e symbol p code ns s1 = (r, s')"
  | (gave_up) x s1 where
      "attempt_body e symbol p code k s = (Inl x, s1)" "k = max_retries - 1"
      "r = Some (outcome ''error'' code)" "s' = log_events [Caught k] s1"
  | (backed_off) x s1 where
      "attempt_body e symbol p code k s = (Inl x, s1)" "k \<noteq> max_retries - 1"
      "retry_loop e symbol p code ns (log_events [Backoff k] (log_events [Caught k] s1)) = (r, s')"
proof -
  obtain a s1 where a: "attempt_body e symbol p code k s = (a, s1)"
    by (cases "attempt_body e symbol p code k s")
  show thesis
  proof (cases a)
    case (Inl x)
    show thesis
    proof (cases "k = max_retries - 1")
      case True
      with a Inl assms have "r = Some (outcome ''error'' code)" "s' = log_events [Caught k] s1"
        by (simp_all add: Let_def)
      with a Inl True show thesis by (simp add: gave_up)
    next
      case False
      with a Inl assms
      have "retry_loop e symbol p code ns (log_events [Backoff k] (log_events [Caught k] s1)) = (r, s')"
        by (simp add: Let_def)
      with a Inl False show thesis by (simp add: backed_off)
    qed
  next
    case (Inr ro)
    show thesis
    proof (cases ro)
      case None
      with a Inr assms have "retry_loop e symbol p code ns s1 = (r, s')" by simp
      with a Inr None show thesis by (simp add: continued)
    next
      case (Some res)
      with a Inr assms have "r = Some res" "s' = s1" by simp_all
      with a Inr Some show thesis by (simp add: returned)
    qed
  qed
qed

lemma loop_frame:
  "retry_loop e symbol p code ns s = (r, s') \<Longrightarrow> q \<noteq> p \<Longrightarrow> files s' q = files s q"
proof (induction ns arbitrary: s)
  case Nil
  then show ?case by simp
next
  case (Cons k ns)
  from Cons.prems(1) show ?case
  proof (cases rule: retry_loop_Cons_cases)
    case (returned res)
    with Cons.prems(2) show ?thesis by (simp add: attempt_frame)
  next
    case (continued s1)
    with Cons.prems(2) Cons.IH [of s1] show ?thesis by (simp add: attempt_frame)
  next
    case (gave_up x s1)
    with Cons.prems(2) show ?thesis by (simp add: attempt_frame)
  next
    case (backed_off x s1)
    with Cons.prems(2) Cons.IH [of "log_events [Backoff k] (log_events [Caught k] s1)"]
    show ?thesis by (simp add: attempt_frame)
  qed
qed

lemma loop_trace_grows:
  "retry_loop e symbol p code ns s = (r, s') \<Longrightarrow> \<exists>ext. trace s' = trace s @ ext"
proof (induction ns arbitrary: s)
  case Nil
  then show ?case by simp
next
  case (Cons k ns)
  from Cons.prems(1) show ?case
  proof (cases rule: retry_loop_Cons_cases)
    case (returned res)
    then show ?thesis using attempt_trace by fastforce
  next
    case (continued s1)
    with Cons.IH [of s1] attempt_trace [OF continued(1)] show ?thesis by auto
  next
    case (gave_up x s1)
    with attempt_trace [OF gave_up(1)] show ?thesis by auto
  next
    case (backed_off x s1)
    with Cons.IH [of "log_events [Backoff k] (log_events [Caught k] s1)"]
      attempt_trace [OF backed_off(1)]
    show ?thesis by auto
  qed
qed

lemma loop_writes:
  "retry_loop e symbol p code ns s = (r, s') \<Longrightarrow> Write n q \<in> set (trace s') \<Longrightarrow>
   Write n q \<in> set (trace s) \<or> q = p"
proof (induction ns arbitrary: s)
  case Nil
  then show ?case by simp
next
  case (Cons k ns)
  from Cons.prems(1) show ?case
  proof (cases rule: retry_loop_Cons_cases)
    case (returned res)
    with Cons.prems(2) attempt_trace [OF returned(1)] show ?thesis by auto
  next
    case (continued s1)
    with Cons.IH [of s1] Cons.prems(2) attempt_trace [OF continued(1)] show ?thesis by auto
  next
    case (gave_up x s1)
    with Cons.prems(2) attempt_trace [OF gave_up(1)] show ?thesis by auto
  next
    case (backed_off x s1)
    with Cons.IH [of "log_events [Backoff k] (log_events [Caught k] s1)"] Cons.prems(2)
      attempt_trace [OF backed_off(1)]
    show ?thesis by auto
  qed
qed

lemma attempt_trace_mono:
  "attempt_body e symbol p code k s = (r, s') \<Longrightarrow> set (trace s) \<subseteq> set (trace s')"
  using attempt_trace [of e symbol p code k s r s'] by auto

lemma loop_artifact:
  assumes "retry_loop e symbol p code ns s = (r, s')"
    and "files s p = a0"
  shows "(r = Some (outcome ''success'' code) \<and>
            (\<exists>n fr. history e symbol n = Returns (Some fr) \<and> write_ends e n = Written
               \<and> Write n p \<in> set (trace s')
               \<and> files s' p = Some \<lparr>mtime = write_time e n, content = csv fr\<rparr>))
         \<or> (r \<noteq> Some (outcome ''success'' code) \<and>
            (files s' p = a0 \<or>
             (\<exists>n fr j. history e symbol n = Returns (Some fr) \<and> write_ends e n = FailsAfter j
                \<and> Write n p \<in> set (trace s')
                \<and> files s' p = Some \<lparr>mtime = write_time e n, content = take j (csv fr)\<rparr>)))"
proof -
  define left where "left t \<longleftrightarrow> files t p = a0 \<or>
      (\<exists>n fr j. history e symbol n = Returns (Some fr) \<and> write_ends e n = FailsAfter j
         \<and> Write n p \<in> set (trace t)
         \<and> files t p = Some \<lparr>mtime = write_time e n, content = take j (csv fr)\<rparr>)" for t :: state
  define full where "full t \<longleftrightarrow>
      (\<exists>n fr. history e symbol n = Returns (Some fr) \<and> write_ends e n = Written
         \<and> Write n p \<in> set (trace t)
         \<and> files t p = Some \<lparr>mtime = write_time e n, content = csv fr\<rparr>)" for t :: state
  have keep: "left u" if "left t" "files u = files t" "set (trace t) \<subseteq> set (trace u)" for t u :: state
    using that unfolding left_def by auto
  have "left s \<Longrightarrow> retry_loop e symbol p code ns s = (r, s') \<Longrightarrow>
      (r = Some (outcome ''success'' code) \<and> full s')
      \<or> (r \<noteq> Some (outcome ''success'' code) \<and> left s')"
  proof (induction ns arbitrary: s)
    case Nil
    then show ?case by simp
  next
    case (Cons k ns)
    from Cons.prems(2) show ?case
    proof (cases rule: retry_loop_Cons_cases)
      case (returned res)
      from attempt_returns [OF returned(1)] show ?thesis
      proof
        assume a: "res = outcome ''empty'' code \<and> files s' = files s"
        with Cons.prems(1) attempt_trace_mono [OF returned(1)] have "left s'"
          by - (rule keep [of s], simp_all)
        with a returned(2) show ?thesis by (simp add: outcome_eq)
      next
        assume "res = outcome ''success'' code \<and>
          (\<exists>fr. history e symbol k = Returns (Some fr) \<and> write_ends e k = Written
             \<and> Write k p \<in> set (trace s')
             \<and> files s' p = Some \<lparr>mtime = write_time e k, content = csv fr\<rparr>)"
        with returned(2) show ?thesis unfolding full_def by blast
      qed
    next
      case (continued s1)
      from attempt_falls_through [OF continued(1)] attempt_trace_mono [OF continued(1)] Cons.prems(1)
      have "left s1" by - (rule keep [of s], simp_all)
      then show ?thesis using continued(2) by (rule Cons.IH)
    next
      case (gave_up x s1)
      have "left s1"
        using attempt_raises [OF gave_up(1)]
      proof
        assume "files s1 = files s"
        with attempt_trace_mono [OF gave_up(1)] Cons.prems(1) show ?thesis
          by - (rule keep [of s], simp_all)
      next
        assume "\<exists>fr j. history e symbol k = Returns (Some fr) \<and> write_ends e k = FailsAfter j
          \<and> Write k p \<in> set (trace s1)
          \<and> files s1 p = Some \<lparr>mtime = write_time e k, content = take j (csv fr)\<rparr>"
        then show ?thesis unfolding left_def by blast
      qed
      then have "left s'"
        using gave_up(4) by - (rule keep [of s1], auto)
      with gave_up(3) show ?thesis by (simp add: outcome_eq)
    next
      case (backed_off x s1)
      have "left s1"
        using attempt_raises [OF backed_off(1)]
      proof
        assume "files s1 = files s"
        with attempt_trace_mono [OF backed_off(1)] Cons.prems(1) show ?thesis
          by - (rule keep [of s], simp_all)
      next
        assume "\<exists>fr j. history e symbol k = Returns (Some fr) \<and> write_ends e k = FailsAfter j
          \<and> Write k p \<in> set (trace s1)
          \<and> files s1 p = Some \<lparr>mtime = write_time e k, content = take j (csv fr)\<rparr>"
        then show ?thesis unfolding left_def by blast
      qed
      then have "left (log_events [Backoff k] (log_events [Caught k] s1))"
        by - (rule keep [of s1], auto)
      then show ?thesis using backed_off(3) by (rule Cons.IH)
    qed
  qed
  moreover from assms(2) have "left s" unfolding left_def by simp
  ultimately show ?thesis
    using assms(1) unfolding left_def full_def by blast
qed

subsection \<open>The backoff sleeps in the log\<close>

lemma placed_decomp:
  "placed prev (pre @ Backoff n # post) \<Longrightarrow>
   Suc n < max_retries \<and> (if pre = [] then prev = Some (Caught n) else last pre = Caught n)
     \<and> (\<exists>post'. post = Jitter (Suc n) # post')"
proof (induction pre arbitrary: prev)
  case Nil
  then show ?case by (cases post) auto
next
  case (Cons a pre)
  then have "placed (Some a) (pre @ Backoff n # post)" by simp
  from Cons.IH [OF this] show ?case by (cases pre) auto
qed

lemma loop_placed:
  "k \<le> max_retries \<Longrightarrow> retry_loop e symbol p code [k..<max_retries] s = (r, s') \<Longrightarrow>
   \<exists>ext. trace s' = trace s @ ext
     \<and> (k < max_retries \<longrightarrow> (\<exists>es. ext = Jitter k # es))
     \<and> (\<forall>prev. placed prev ext)
     \<and> (\<forall>n. Caught n \<in> set ext \<longrightarrow> k \<le> n)
     \<and> ((\<forall>n. k \<le> n \<and> n < max_retries \<longrightarrow> Caught n \<in> set ext) \<longrightarrow>
          filter is_Backoff ext = map Backoff [k..<max_retries - 1]
          \<and> (k < max_retries \<longrightarrow> r = Some (outcome ''error'' code)))"
proof (induction k arbitrary: s rule: inc_induct)
  case base
  then show ?case by simp
next
  case (step k)
  from step.hyps have up: "[k..<max_retries] = k # [Suc k..<max_retries]"
    by (simp add: upt_conv_Cons)
  from step.prems [unfolded up] show ?case
  proof (cases rule: retry_loop_Cons_cases)
    case (returned res)
    from attempt_trace [OF returned(1)] step.hyps show ?thesis
      by (auto simp: max_retries_def)
  next
    case (continued s1)
    from step.IH [OF continued(2)] obtain ext where ext:
      "trace s' = trace s1 @ ext" "\<forall>prev. placed prev ext" "\<forall>n. Caught n \<in> set ext \<longrightarrow> Suc k \<le> n"
      by blast
    from attempt_trace [OF continued(1)] obtain seg where seg:
      "trace s1 = trace s @ seg"
      "seg = [Jitter k, Fetch k symbol] \<or> seg = [Jitter k, Fetch k symbol, Write k p]"
      by auto
    have 1: "trace s' = trace s @ (seg @ ext)" using ext(1) seg(1) by simp
    have 2: "\<exists>es. seg @ ext = Jitter k # es" using seg(2) by auto
    have 3: "\<forall>prev. placed prev (seg @ ext)" using seg(2) ext(2) by auto
    have 4: "\<forall>n. Caught n \<in> set (seg @ ext) \<longrightarrow> k \<le> n" using seg(2) ext(3) by auto
    have 5: "Caught k \<notin> set (seg @ ext)" using seg(2) ext(3) by auto
    from 1 2 3 4 5 step.hyps show ?thesis
      by (intro exI [of _ "seg @ ext"]) auto
  next
    case (gave_up x s1)
    from attempt_trace [OF gave_up(1)] obtain seg where seg:
      "trace s1 = trace s @ seg"
      "seg = [Jitter k, Fetch k symbol] \<or> seg = [Jitter k, Fetch k symbol, Write k p]"
      by auto
    have 1: "trace s' = trace s @ (seg @ [Caught k])" using gave_up(4) seg(1) by simp
    have 2: "\<exists>es. seg @ [Caught k] = Jitter k # es" using seg(2) by auto
    have 3: "\<forall>prev. placed prev (seg @ [Caught k])" using seg(2) by auto
    have 4: "\<forall>n. Caught n \<in> set (seg @ [Caught k]) \<longrightarrow> k \<le> n" using seg(2) by auto
    have 5: "filter is_Backoff (seg @ [Caught k]) = map Backoff [k..<max_retries - 1]"
      using seg(2) gave_up(2) by auto
    from 1 2 3 4 5 gave_up(3) show ?thesis
      by (intro exI [of _ "seg @ [Caught k]"]) simp
  next
    case (backed_off x s1)
    from step.hyps backed_off(2) have lt: "Suc k < max_retries" by simp
    from step.IH [OF backed_off(3)] obtain ext where ext0:
      "trace (s') = trace (log_events [Backoff k] (log_events [Caught k] s1)) @ ext"
      "Suc k < max_retries \<longrightarrow> (\<exists>es. ext = Jitter (Suc k) # es)"
      "\<forall>prev. placed prev ext" "\<forall>n. Caught n \<in> set ext \<longrightarrow> Suc k \<le> n"
      "(\<forall>n. Suc k \<le> n \<and> n < max_retries \<longrightarrow> Caught n \<in> set ext) \<longrightarrow>
          filter is_Backoff ext = map Backoff [Suc k..<max_retries - 1]
          \<and> (Suc k < max_retries \<longrightarrow> r = Some (outcome ''error'' code))"
      by blast
    from ext0(2) lt obtain es where es: "ext = Jitter (Suc k) # es" by blast
    have ext: "trace s' = trace s1 @ [Caught k, Backoff k] @ ext" "ext = Jitter (Suc k) # es"
      "\<forall>prev. placed prev ext" "\<forall>n. Caught n \<in> set ext \<longrightarrow> Suc k \<le> n"
      "(\<forall>n. Suc k \<le> n \<and> n < max_retries \<longrightarrow> Caught n \<in> set ext) \<longrightarrow>
          filter is_Backoff ext = map Backoff [Suc k..<max_retries - 1]
          \<and> r = Some (outcome ''error'' code)"
      using ext0 es lt by simp_all
    from attempt_trace [OF backed_off(1)] obtain seg where seg:
      "trace s1 = trace s @ seg"
      "seg = [Jitter k, Fetch k symbol] \<or> seg = [Jitter k, Fetch k symbol, Write k p]"
      by auto
    let ?ext = "seg @ [Caught k, Backoff k] @ ext"
    have 1: "trace s' = trace s @ ?ext" using ext(1) seg(1) by simp
    have 2: "\<exists>es. ?ext = Jitter k # es" using seg(2) by auto
    have 3: "\<forall>prev. placed prev ?ext" using seg(2) ext(2,3) lt by (auto simp: max_retries_def)
    have 4: "\<forall>n. Caught n \<in> set ?ext \<longrightarrow> k \<le> n" using seg(2) ext(4) by auto
    have 5: "filter is_Backoff ?ext = map Backoff [k..<max_retries - 1] \<and> r = Some (outcome ''error'' code)"
      if h: "\<forall>n. k \<le> n \<and> n < max_retries \<longrightarrow> Caught n \<in> set ?ext"
    proof -
      have "\<forall>n. Suc k \<le> n \<and> n < max_retries \<longrightarrow> Caught n \<in> set ext"
      proof (intro allI impI)
        fix n assume n: "Suc k \<le> n \<and> n < max_retries"
        then have "k \<le> n \<and> n < max_retries" by simp
        with h have "Caught n \<in> set ?ext" by blast
        with n seg(2) show "Caught n \<in> set ext" by auto
      qed
      with ext(5) have e: "filter is_Backoff ext = map Backoff [Suc k..<max_retries - 1]"
        "r = Some (outcome ''error'' code)" by simp_all
      from lt have "[k..<max_retries - 1] = k # [Suc k..<max_retries - 1]"
        by (simp add: upt_conv_Cons)
      with e seg(2) show ?thesis by auto
    qed
    from 1 2 3 4 5 show ?thesis
      by (intro exI [of _ ?ext]) blast
  qed
qed

subsection \<open>The whole call\<close>

lemma status_eq: "outcome st code ''status'' = Some st' \<longleftrightarrow> st = st'"
  by (simp add: outcome_def)

lemma loop_returns:
  "k < max_retries \<Longrightarrow> retry_loop e symbol p code [k..<max_retries] s = (r, s') \<Longrightarrow> r \<noteq> None"
proof (induction k arbitrary: s rule: strict_inc_induct)
  case (base k)
  then have up: "[k..<max_retries] = [k]" "k = max_retries - 1"
    by (simp_all add: upt_conv_Cons)
  from base.prems [unfolded up(1)] show ?case
  proof (cases rule: retry_loop_Cons_cases)
    case (continued s1)
    with up(2) show ?thesis
      by (auto simp: attempt_defs split: attempt_splits)
  qed (use up(2) in auto)
next
  case (step k)
  from step.hyps have up: "[k..<max_retries] = k # [Suc k..<max_retries]"
    by (simp add: upt_conv_Cons)
  from step.prems [unfolded up] show ?case
  proof (cases rule: retry_loop_Cons_cases)
    case (continued s1)
    show ?thesis by (rule step.IH [OF continued(2)])
  next
    case (backed_off x s1)
    show ?thesis by (rule step.IH [OF backed_off(3)])
  qed auto
qed

lemma download_one_wf_cases:
  assumes "CHR ''&'' \<notin> set code"
  obtains
    (cached) "fresh e fs (out_path_of e code name)"
      "download_one e fs (code @ CHR ''&'' # name)
         = Inr (outcome ''exists'' code, \<lparr>files = fs, trace = []\<rparr>)"
  | (fetched) res s where
      "\<not> fresh e fs (out_path_of e code name)"
      "retry_loop e (symbol_of code) (out_path_of e code name) code [0..<max_retries]
         \<lparr>files = fs, trace = []\<rparr> = (Some res, s)"
      "download_one e fs (code @ CHR ''&'' # name) = Inr (res, s)"
proof (cases "fresh e fs (out_path_of e code name)")
  case True
  with assms have "download_one e fs (code @ CHR ''&'' # name)
      = Inr (outcome ''exists'' code, \<lparr>files = fs, trace = []\<rparr>)"
    by (simp add: download_one_def try_body_def split_once_first)
  with True show thesis by (rule cached)
next
  case False
  obtain r s where l: "retry_loop e (symbol_of code) (out_path_of e code name) code [0..<max_retries]
       \<lparr>files = fs, trace = []\<rparr> = (r, s)"
    by (cases "retry_loop e (symbol_of code) (out_path_of e code name) code [0..<max_retries]
       \<lparr>files = fs, trace = []\<rparr>")
  have "0 < max_retries" by (simp add: max_retries_def)
  from loop_returns [OF this l] obtain res where r: "r = Some res" by auto
  with assms False l have "download_one e fs (code @ CHR ''&'' # name) = Inr (res, s)"
    by (simp add: download_one_def try_body_def split_once_first)
  with False l r show thesis by (simp add: fetched)
qed

lemma download_one_cases:
  obtains
    (malformed) "CHR ''&'' \<notin> set item"
      "download_one e fs item = Inr (outcome ''error'' item, \<lparr>files = fs, trace = []\<rparr>)"
  | (cached) code name where
      "item = code @ CHR ''&'' # name" "CHR ''&'' \<notin> set code"
      "download_one e fs item = Inr (outcome ''exists'' code, \<lparr>files = fs, trace = []\<rparr>)"
  | (fetched) code name res s where
      "item = code @ CHR ''&'' # name" "CHR ''&'' \<notin> set code"
      "retry_loop e (symbol_of code) (out_path_of e code name) code [0..<max_retries]
         \<lparr>files = fs, trace = []\<rparr> = (Some res, s)"
      "download_one e fs item = Inr (res, s)"
proof (cases "CHR ''&'' \<in> set item")
  case False
  then show thesis by (simp add: malformed download_one_malformed)
next
  case True
  then obtain code name where i: "item = code @ CHR ''&'' # name" "CHR ''&'' \<notin> set code"
    by (auto dest: split_list_first)
  from i(2) show thesis
  proof (cases rule: download_one_wf_cases [where e = e and fs = fs and name = name])
    case cached
    with i show thesis by (simp add: that(2))
  next
    case (fetched res s)
    with i show thesis by (simp add: that(3))
  qed
qed

subsection \<open>Evaluation of the concrete runs\<close>

lemma upt_0_3: "[0..<3] = [0, 1, 2]"
  by (simp add: upt_conv_Cons)

lemmas run_defs = download_one_def try_body_def split_once_def symbol_of_def out_path_of_def
  path_join_def startswith_def fresh_def upt_0_3 attempt_defs max_retries_def
  DATA_EXPIRY_SECONDS_def frame_rows_def

lemma env_ok_simps:
  "DATA_DIR env_ok = ''/data''" "clock env_ok = 10000"
  "history env_ok symbol n = Returns (Some (frame_rows ''date,close''))"
  "write_ends env_ok n = Written" "write_time env_ok n = 10001"
  by (simp_all add: env_ok_def)

lemma run_ok:
  "download_one env_ok fs ''600519&x'' =
     (if fresh env_ok fs ''/data/600519_x.csv''
      then Inr (outcome ''exists'' ''600519'', \<lparr>files = fs, trace = []\<rparr>)
      else Inr (outcome ''success'' ''600519'',
        \<lparr>files = fs(''/data/600519_x.csv'' \<mapsto> \<lparr>mtime = 10001, content = ''date,close''\<rparr>),
         trace = [Jitter 0, Fetch 0 ''600519.SS'', Write 0 ''/data/600519_x.csv'']\<rparr>))"
  by (simp add: download_one_def try_body_def split_once_def symbol_of_def out_path_of_def
      path_join_def startswith_def upt_0_3 attempt_defs max_retries_def frame_rows_def env_ok_def)

lemma run_raising:
  "download_one env_raising Map.empty ''000002&x'' =
     Inr (outcome ''error'' ''000002'',
        \<lparr>files = Map.empty,
         trace = [Jitter 0, Fetch 0 ''000002.SZ'', Caught 0, Backoff 0,
                  Jitter 1, Fetch 1 ''000002.SZ'', Caught 1, Backoff 1,
                  Jitter 2, Fetch 2 ''000002.SZ'', Caught 2]\<rparr>)"
  by (simp add: run_defs env_raising_def)

section \<open>The claims\<close>

lemma run_partial:
  "download_one env_partial fs_old ''600519&x'' =
   Inr (outcome ''error'' ''600519'',
        \<lparr>files = fs_old(''/data/600519_x.csv'' \<mapsto> \<lparr>mtime = 10003, content = ''date''\<rparr>),
         trace = [Jitter 0, Fetch 0 ''600519.SS'', Write 0 ''/data/600519_x.csv'', Caught 0, Backoff 0,
                  Jitter 1, Fetch 1 ''600519.SS'', Write 1 ''/data/600519_x.csv'', Caught 1, Backoff 1,
                  Jitter 2, Fetch 2 ''600519.SS'', Write 2 ''/data/600519_x.csv'', Caught 2]\<rparr>)"
  by (simp add: run_defs env_partial_def fs_old_def)

lemma run_lost:
  "download_one env_lost Map.empty ''000002&x'' =
   Inr (outcome ''empty'' ''000002'',
        \<lparr>files = [''/data/000002_x.csv'' \<mapsto> \<lparr>mtime = 100, content = replicate 1500 CHR ''x''\<rparr>],
         trace = [Jitter 0, Fetch 0 ''000002.SZ'', Write 0 ''/data/000002_x.csv'', Caught 0, Backoff 0,
                  Jitter 1, Fetch 1 ''000002.SZ'', Jitter 2, Fetch 2 ''000002.SZ'']\<rparr>)"
  by (simp add: run_defs env_lost_def)

subsection \<open>C1\<close>

text \<open>
  C1. For every run, \<^verbatim>\<open>main\<close> returns statistics (it raises nothing) in which
  \<^verbatim>\<open>total\<close> is the number of input items, \<^verbatim>\<open>success\<close> is the number of
  outcomes of the run with status success or exists, \<^verbatim>\<open>fail\<close> is the number
  with status error or empty, and \<^verbatim>\<open>total = success + fail\<close>.
\<close>

theorem main_total_is_success_plus_fail:
  "\<exists>outs fs' r. run_pool envs 0 fs items = Inr (outs, fs') \<and> main envs fs items = Inr r
     \<and> total r = int (length items)
     \<and> success r = int (length (filter (\<lambda>res. get_status res \<in> {''success'', ''exists''}) outs))
     \<and> fail r = int (length (filter (\<lambda>res. get_status res \<in> {''error'', ''empty''}) outs))
     \<and> total r = success r + fail r"
proof -
  obtain outs fs' where r: "run_pool envs 0 fs items = Inr (outs, fs')"
    "length outs = length items" "\<forall>res \<in> set outs. \<exists>st code. st \<in> tags \<and> res = outcome st code"
    using run_pool_returns by blast
  from r(3) have v: "\<forall>res \<in> set outs. get_status res \<in> tags"
    by (auto simp: get_status_outcome)
  have "length outs = length (filter (\<lambda>x. get_status x \<in> {''success'', ''exists''}) outs)
             + length (filter (\<lambda>x. get_status x \<in> {''error'', ''empty''}) outs)"
    using v by (rule length_by_tags)
  with r(1,2) aggregate_valid [OF v, of items] show ?thesis
    by (simp add: main_def)
qed

text \<open>C1 on a run of two items, one downloaded and one malformed.\<close>

theorem main_total_is_success_plus_fail_witness:
  "main (\<lambda>k. env_ok) Map.empty [''600519&x'', ''000002'']
     = Inr \<lparr>total = 2, success = 1, fail = 1\<rparr>"
  using main_total_is_success_plus_fail [of "\<lambda>k. env_ok" Map.empty "[''600519&x'', ''000002'']"]
  by (simp add: main_def run_ok download_one_malformed fresh_def aggregate_def stats_init_def
      get_status_def outcome_def download_stats_def)

subsection \<open>C2\<close>

text \<open>
  C2. For every input string, \<^verbatim>\<open>download_one\<close> returns, and raises nothing: the
  result is one outcome whose status is success, exists, empty or error, and the
  call changes no path of the file system other than the artifact path of its
  own item. So the pool is never ended by an exception of a call: for every list
  of items it returns one outcome for each of them.
\<close>

theorem download_one_one_outcome:
  "(\<exists>res s. download_one e fs item = Inr (res, s)
       \<and> res ''status'' \<in> {Some ''success'', Some ''exists'', Some ''empty'', Some ''error''}
       \<and> (\<forall>q. files s q \<noteq> fs q \<longrightarrow>
             (\<exists>code name. item = code @ ''&'' @ name \<and> CHR ''&'' \<notin> set code
                \<and> q = out_path_of e code name)))
   \<and> (\<exists>outs fs'. run_pool envs k fs items = Inr (outs, fs') \<and> length outs = length items)"
proof
  show "\<exists>res s. download_one e fs item = Inr (res, s)
       \<and> res ''status'' \<in> {Some ''success'', Some ''exists'', Some ''empty'', Some ''error''}
       \<and> (\<forall>q. files s q \<noteq> fs q \<longrightarrow>
             (\<exists>code name. item = code @ ''&'' @ name \<and> CHR ''&'' \<notin> set code
                \<and> q = out_path_of e code name))"
  proof (cases rule: download_one_cases [of item e fs])
    case malformed
    then show ?thesis by (simp add: outcome_status)
  next
    case (cached code name)
    then show ?thesis by (simp add: outcome_status)
  next
    case (fetched code name res s)
    from retry_loop_result [OF fetched(3)]
    have "res ''status'' \<in> {Some ''success'', Some ''exists'', Some ''empty'', Some ''error''}"
      by (auto simp: outcome_status)
    moreover have "\<exists>code' name'. item = code' @ ''&'' @ name' \<and> CHR ''&'' \<notin> set code'
        \<and> q = out_path_of e code' name'" if "files s q \<noteq> fs q" for q
    proof -
      from that loop_frame [OF fetched(3), of q] have "q = out_path_of e code name"
        by auto
      with fetched(1,2) show ?thesis by auto
    qed
    ultimately show ?thesis using fetched(4) by blast
  qed
next
  show "\<exists>outs fs'. run_pool envs k fs items = Inr (outs, fs') \<and> length outs = length items"
    using run_pool_returns [of envs k fs items] by blast
qed

text \<open>C2 on a symbol that is downloaded, and on a pool that meets a malformed item first.\<close>

theorem download_one_one_outcome_witness:
  "download_one env_ok Map.empty ''600519&x''
     = Inr (outcome ''success'' ''600519'',
         \<lparr>files = [''/data/600519_x.csv'' \<mapsto> \<lparr>mtime = 10001, content = ''date,close''\<rparr>],
          trace = [Jitter 0, Fetch 0 ''600519.SS'', Write 0 ''/data/600519_x.csv'']\<rparr>)
   \<and> (\<exists>code name. ''600519&x'' = code @ ''&'' @ name \<and> CHR ''&'' \<notin> set code
         \<and> ''/data/600519_x.csv'' = out_path_of env_ok code name)
   \<and> (\<exists>fs'. run_pool (\<lambda>k. env_ok) 0 Map.empty [''000002'', ''600519&x'']
         = Inr ([outcome ''error'' ''000002'', outcome ''success'' ''600519''], fs'))"
proof -
  have r: "download_one env_ok Map.empty ''600519&x''
     = Inr (outcome ''success'' ''600519'',
         \<lparr>files = [''/data/600519_x.csv'' \<mapsto> \<lparr>mtime = 10001, content = ''date,close''\<rparr>],
          trace = [Jitter 0, Fetch 0 ''600519.SS'', Write 0 ''/data/600519_x.csv'']\<rparr>)"
    by (simp add: run_ok fresh_def)
  note t = download_one_one_outcome
    [of env_ok Map.empty "''600519&x''" "\<lambda>k. env_ok" 0 "[''000002'', ''600519&x'']"]
  from t [THEN conjunct1] r
  have "\<forall>q. [''/data/600519_x.csv'' \<mapsto> \<lparr>mtime = 10001, content = ''date,close''\<rparr>] q \<noteq> Map.empty q \<longrightarrow>
      (\<exists>code name. ''600519&x'' = code @ ''&'' @ name \<and> CHR ''&'' \<notin> set code
         \<and> q = out_path_of env_ok code name)"
    by simp
  from this [rule_format, of "''/data/600519_x.csv''"]
  have 1: "\<exists>code name. ''600519&x'' = code @ ''&'' @ name \<and> CHR ''&'' \<notin> set code
         \<and> ''/data/600519_x.csv'' = out_path_of env_ok code name"
    by simp
  from t [THEN conjunct2]
  have 2: "\<exists>fs'. run_pool (\<lambda>k. env_ok) 0 Map.empty [''000002'', ''600519&x'']
         = Inr ([outcome ''error'' ''000002'', outcome ''success'' ''600519''], fs')"
    by (simp add: run_ok download_one_malformed fresh_def)
  from r 1 2 show ?thesis by simp
qed

subsection \<open>C3\<close>

text \<open>
  C3. For a well-formed item (the code holds no separator): when the artifact
  is there, its age is below 3600 seconds and its size is above 1000 bytes,
  \<^verbatim>\<open>download_one\<close> returns the outcome exists, with an empty log (no sleep, no
  query, no write) and the file system as it was. When the artifact is missing,
  or is there but not that young or not that large, the call queries the remote
  service in attempt 0.
\<close>

theorem fresh_artifact_skips_fetch:
  assumes "CHR ''&'' \<notin> set code"
  shows "((\<exists>f. fs (out_path_of e code name) = Some f \<and> clock e - mtime f < 3600
              \<and> 1000 < length (content f)) \<longrightarrow>
          download_one e fs (code @ ''&'' @ name)
            = Inr (outcome ''exists'' code, \<lparr>files = fs, trace = []\<rparr>))
       \<and> ((fs (out_path_of e code name) = None
            \<or> (\<exists>f. fs (out_path_of e code name) = Some f
                  \<and> \<not> (clock e - mtime f < 3600 \<and> 1000 < length (content f)))) \<longrightarrow>
          (\<exists>res s. download_one e fs (code @ ''&'' @ name) = Inr (res, s)
              \<and> Fetch 0 (symbol_of code) \<in> set (trace s)))"
proof (intro conjI impI)
  assume "\<exists>f. fs (out_path_of e code name) = Some f \<and> clock e - mtime f < 3600
              \<and> 1000 < length (content f)"
  then have f: "fresh e fs (out_path_of e code name)"
    by (auto simp: fresh_def DATA_EXPIRY_SECONDS_def)
  from assms show "download_one e fs (code @ ''&'' @ name)
            = Inr (outcome ''exists'' code, \<lparr>files = fs, trace = []\<rparr>)"
    by (cases rule: download_one_wf_cases [where e = e and fs = fs and name = name]) (use f in simp_all)
next
  assume "fs (out_path_of e code name) = None
            \<or> (\<exists>f. fs (out_path_of e code name) = Some f
                  \<and> \<not> (clock e - mtime f < 3600 \<and> 1000 < length (content f)))"
  then have f: "\<not> fresh e fs (out_path_of e code name)"
    by (auto simp: fresh_def DATA_EXPIRY_SECONDS_def)
  from assms show "\<exists>res s. download_one e fs (code @ ''&'' @ name) = Inr (res, s)
              \<and> Fetch 0 (symbol_of code) \<in> set (trace s)"
  proof (cases rule: download_one_wf_cases [where e = e and fs = fs and name = name])
    case cached
    with f show ?thesis by simp
  next
    case (fetched res s)
    have up: "[0..<max_retries] = 0 # [1..<max_retries]"
      by (simp add: upt_conv_Cons max_retries_def)
    have "\<exists>es. trace s = Jitter 0 # Fetch 0 (symbol_of code) # es"
      using fetched(2) unfolding up
    proof (cases rule: retry_loop_Cons_cases)
      case (returned res)
      from attempt_trace [OF returned(1)] show ?thesis by auto
    next
      case (continued s1)
      from attempt_trace [OF continued(1)] loop_trace_grows [OF continued(2)] show ?thesis by auto
    next
      case (gave_up x s1)
      from attempt_trace [OF gave_up(1)] gave_up(4) show ?thesis by auto
    next
      case (backed_off x s1)
      from attempt_trace [OF backed_off(1)] loop_trace_grows [OF backed_off(3)] show ?thesis by auto
    qed
    with fetched(3) show ?thesis by auto
  qed
qed

text \<open>
  C3 on an artifact of 5000 bytes that is ten minutes old, and on an empty file system.
\<close>

theorem fresh_artifact_skips_fetch_witness:
  "download_one env_ok fs_fresh ''600519&x''
     = Inr (outcome ''exists'' ''600519'', \<lparr>files = fs_fresh, trace = []\<rparr>)
   \<and> (\<exists>res s. download_one env_ok Map.empty ''600519&x'' = Inr (res, s)
         \<and> Fetch 0 ''600519.SS'' \<in> set (trace s))"
proof -
  have h: "CHR ''&'' \<notin> set ''600519''" by simp
  have p: "out_path_of env_ok ''600519'' ''x'' = ''/data/600519_x.csv''"
    by (simp add: out_path_of_def path_join_def startswith_def env_ok_def)
  have k: "symbol_of ''600519'' = ''600519.SS''"
    by (simp add: symbol_of_def startswith_def)
  have a: "\<exists>f. fs_fresh (out_path_of env_ok ''600519'' ''x'') = Some f
        \<and> clock env_ok - mtime f < 3600 \<and> 1000 < length (content f)"
    by (simp add: p fs_fresh_def env_ok_simps)
  have b: "Map.empty (out_path_of env_ok ''600519'' ''x'') = None
        \<or> (\<exists>f. Map.empty (out_path_of env_ok ''600519'' ''x'') = Some f
              \<and> \<not> (clock env_ok - mtime f < 3600 \<and> 1000 < length (content f)))"
    by simp
  from fresh_artifact_skips_fetch [OF h, of fs_fresh env_ok "''x''"] a
  have 1: "download_one env_ok fs_fresh ''600519&x''
     = Inr (outcome ''exists'' ''600519'', \<lparr>files = fs_fresh, trace = []\<rparr>)"
    by simp
  from fresh_artifact_skips_fetch [OF h, of Map.empty env_ok "''x''"] b
  have 2: "\<exists>res s. download_one env_ok Map.empty ''600519&x'' = Inr (res, s)
         \<and> Fetch 0 ''600519.SS'' \<in> set (trace s)"
    by (simp add: k)
  from 1 2 show ?thesis ..
qed

subsection \<open>C4\<close>

text \<open>
  C4 as stated fails. The old artifact of \<^verbatim>\<open>600519\<close> is stale, each of the three
  attempts fetches the text \<^verbatim>\<open>date,close\<close> and its write fails after four bytes.
  The outcome is error, and the artifact path no longer holds the old artifact
  but the four bytes of the last failed write.
\<close>

theorem failed_write_leaves_partial_file:
  "download_one env_partial fs_old ''600519&x'' =
   Inr (outcome ''error'' ''600519'',
        \<lparr>files = fs_old(''/data/600519_x.csv'' \<mapsto> \<lparr>mtime = 10003, content = ''date''\<rparr>),
         trace = [Jitter 0, Fetch 0 ''600519.SS'', Write 0 ''/data/600519_x.csv'', Caught 0, Backoff 0,
                  Jitter 1, Fetch 1 ''600519.SS'', Write 1 ''/data/600519_x.csv'', Caught 1, Backoff 1,
                  Jitter 2, Fetch 2 ''600519.SS'', Write 2 ''/data/600519_x.csv'', Caught 2]\<rparr>)
   \<and> fs_old ''/data/600519_x.csv'' = Some \<lparr>mtime = 0, content = ''date,open''\<rparr>
   \<and> (fs_old(''/data/600519_x.csv'' \<mapsto> \<lparr>mtime = 10003, content = ''date''\<rparr>)) ''/data/600519_x.csv''
       \<noteq> fs_old ''/data/600519_x.csv''
   \<and> take 4 ''date,close'' = ''date''"
proof -
  have "fs_old ''/data/600519_x.csv'' = Some \<lparr>mtime = 0, content = ''date,open''\<rparr>"
    by (simp add: fs_old_def)
  with run_partial show ?thesis by simp
qed

text \<open>
  C4, amended. For a well-formed item: when the outcome is success, the artifact
  path holds the complete text of a fetched frame (the write replaces the
  artifact as a whole). When the outcome is not success, the artifact path holds
  either what it held before the call, or what a write that failed partway has
  left there: the first bytes of the text of a fetched frame. The program writes
  at the final path itself, so a failed write is not undone.
\<close>

theorem artifact_after_failed_write:
  assumes "CHR ''&'' \<notin> set code"
    and "download_one e fs (code @ ''&'' @ name) = Inr (res, s)"
  shows "(res ''status'' = Some ''success'' \<longrightarrow>
            (\<exists>n fr. history e (symbol_of code) n = Returns (Some fr)
               \<and> write_ends e n = Written
               \<and> Write n (out_path_of e code name) \<in> set (trace s)
               \<and> files s (out_path_of e code name)
                   = Some \<lparr>mtime = write_time e n, content = csv fr\<rparr>))
       \<and> (res ''status'' \<noteq> Some ''success'' \<longrightarrow>
            files s (out_path_of e code name) = fs (out_path_of e code name)
            \<or> (\<exists>n fr j. history e (symbol_of code) n = Returns (Some fr)
                  \<and> write_ends e n = FailsAfter j
                  \<and> Write n (out_path_of e code name) \<in> set (trace s)
                  \<and> files s (out_path_of e code name)
                      = Some \<lparr>mtime = write_time e n, content = take j (csv fr)\<rparr>))"
proof (cases rule: download_one_wf_cases [where e = e and fs = fs and name = name, OF assms(1)])
  case 1
  with assms(2) show ?thesis by (auto simp: outcome_def)
next
  case (2 res' s')
  with assms(2) have eq: "res' = res" "s' = s" by simp_all
  note l = 2(2) [unfolded eq]
  let ?p = "out_path_of e code name"
  have "files \<lparr>files = fs, trace = []\<rparr> ?p = fs ?p"
    by simp
  from loop_artifact [OF l this] retry_loop_result [OF l] show ?thesis
    by (auto simp: status_eq outcome_eq)
qed

text \<open>C4, amended, on a write that succeeds and on writes that fail after four bytes.\<close>

theorem artifact_after_failed_write_witness:
  "download_one env_ok fs_old ''600519&x''
     = Inr (outcome ''success'' ''600519'',
         \<lparr>files = fs_old(''/data/600519_x.csv'' \<mapsto> \<lparr>mtime = 10001, content = ''date,close''\<rparr>),
          trace = [Jitter 0, Fetch 0 ''600519.SS'', Write 0 ''/data/600519_x.csv'']\<rparr>)
   \<and> (\<exists>n fr. history env_ok ''600519.SS'' n = Returns (Some fr)
         \<and> \<lparr>mtime = 10001, content = ''date,close''\<rparr> = \<lparr>mtime = write_time env_ok n, content = csv fr\<rparr>)
   \<and> (\<exists>n fr j. history env_partial ''600519.SS'' n = Returns (Some fr)
         \<and> write_ends env_partial n = FailsAfter j
         \<and> \<lparr>mtime = 10003, content = ''date''\<rparr>
             = \<lparr>mtime = write_time env_partial n, content = take j (csv fr)\<rparr>)"
proof -
  have h: "CHR ''&'' \<notin> set ''600519''" by simp
  have p: "out_path_of env_ok ''600519'' ''x'' = ''/data/600519_x.csv''"
    "out_path_of env_partial ''600519'' ''x'' = ''/data/600519_x.csv''"
    by (simp_all add: out_path_of_def path_join_def startswith_def env_ok_def env_partial_def)
  have k: "symbol_of ''600519'' = ''600519.SS''"
    by (simp add: symbol_of_def startswith_def)
  have r: "download_one env_ok fs_old (''600519'' @ ''&'' @ ''x'')
     = Inr (outcome ''success'' ''600519'',
         \<lparr>files = fs_old(''/data/600519_x.csv'' \<mapsto> \<lparr>mtime = 10001, content = ''date,close''\<rparr>),
          trace = [Jitter 0, Fetch 0 ''600519.SS'', Write 0 ''/data/600519_x.csv'']\<rparr>)"
    by (simp add: run_ok fresh_def fs_old_def env_ok_simps DATA_EXPIRY_SECONDS_def)
  from artifact_after_failed_write [OF h r]
  have 1: "\<exists>n fr. history env_ok ''600519.SS'' n = Returns (Some fr)
         \<and> \<lparr>mtime = 10001, content = ''date,close''\<rparr> = \<lparr>mtime = write_time env_ok n, content = csv fr\<rparr>"
    by (auto simp: p k outcome_def)
  have r': "download_one env_partial fs_old (''600519'' @ ''&'' @ ''x'') =
     Inr (outcome ''error'' ''600519'',
        \<lparr>files = fs_old(''/data/600519_x.csv'' \<mapsto> \<lparr>mtime = 10003, content = ''date''\<rparr>),
         trace = [Jitter 0, Fetch 0 ''600519.SS'', Write 0 ''/data/600519_x.csv'', Caught 0, Backoff 0,
                  Jitter 1, Fetch 1 ''600519.SS'', Write 1 ''/data/600519_x.csv'', Caught 1, Backoff 1,
                  Jitter 2, Fetch 2 ''600519.SS'', Write 2 ''/data/600519_x.csv'', Caught 2]\<rparr>)"
    using run_partial by simp
  from artifact_after_failed_write [OF h r']
  have 2: "\<exists>n fr j. history env_partial ''600519.SS'' n = Returns (Some fr)
         \<and> write_ends env_partial n = FailsAfter j
         \<and> \<lparr>mtime = 10003, content = ''date''\<rparr>
             = \<lparr>mtime = write_time env_partial n, content = take j (csv fr)\<rparr>"
    by (auto simp: p k outcome_def fs_old_def)
  from r 1 2 show ?thesis by simp
qed

subsection \<open>C5\<close>

text \<open>
  C5. In the log of every call of \<^verbatim>\<open>download_one\<close>, a backoff sleep stands only
  directly after the entry into the handler of its own attempt (the attempt
  raised) and directly before the jitter sleep of the next attempt, and that next
  attempt is one of the \<^verbatim>\<open>max_retries\<close> attempts: there is no backoff sleep after
  the last attempt. When every one of the three attempts raised, the backoff
  sleeps of the log are exactly two, those of attempts 0 and 1, and the status
  is error.
\<close>

theorem backoff_only_between_attempts:
  assumes "download_one e fs item = Inr (res, s)"
  shows "(\<forall>pre n post. trace s = pre @ Backoff n # post \<longrightarrow>
            Suc n < max_retries \<and> (\<exists>pre'. pre = pre' @ [Caught n])
            \<and> (\<exists>post'. post = Jitter (Suc n) # post'))
       \<and> ((\<forall>n < max_retries. Caught n \<in> set (trace s)) \<longrightarrow>
            filter is_Backoff (trace s) = [Backoff 0, Backoff 1] \<and> res ''status'' = Some ''error'')"
proof (cases rule: download_one_cases [of item e fs])
  case malformed
  with assms have "trace s = []" by auto
  moreover have "0 < max_retries" by (simp add: max_retries_def)
  ultimately show ?thesis by auto
next
  case (cached code name)
  with assms have "trace s = []" by auto
  moreover have "0 < max_retries" by (simp add: max_retries_def)
  ultimately show ?thesis by auto
next
  case (fetched code name res' s')
  with assms have eq: "res' = res" "s' = s" by simp_all
  have "0 \<le> max_retries" by simp
  from loop_placed [OF this fetched(3)] eq
  have pl: "placed None (trace s)"
    and all: "(\<forall>n. n < max_retries \<longrightarrow> Caught n \<in> set (trace s)) \<longrightarrow>
          filter is_Backoff (trace s) = map Backoff [0..<max_retries - 1]
          \<and> res = outcome ''error'' code"
    by (auto simp: max_retries_def)
  have a: "Suc n < max_retries \<and> (\<exists>pre'. pre = pre' @ [Caught n])
            \<and> (\<exists>post'. post = Jitter (Suc n) # post')"
    if t: "trace s = pre @ Backoff n # post" for pre n post
  proof -
    from pl t have "placed None (pre @ Backoff n # post)" by simp
    from placed_decomp [OF this]
    have d: "Suc n < max_retries" "if pre = [] then None = Some (Caught n) else last pre = Caught n"
      "\<exists>post'. post = Jitter (Suc n) # post'"
      by simp_all
    from d(2) have "pre \<noteq> []" "last pre = Caught n"
      by (auto split: if_splits)
    then have "pre = butlast pre @ [Caught n]"
      by (metis append_butlast_last_id)
    with d(1,3) show ?thesis by blast
  qed
  have b: "filter is_Backoff (trace s) = [Backoff 0, Backoff 1] \<and> res ''status'' = Some ''error''"
    if "\<forall>n < max_retries. Caught n \<in> set (trace s)"
  proof -
    have "[0..<max_retries - 1] = [0, 1]"
      by (simp add: max_retries_def upt_conv_Cons)
    with all that show ?thesis by (simp add: outcome_status)
  qed
  from a b show ?thesis by blast
qed

text \<open>C5 on a symbol whose every query raises.\<close>

theorem backoff_only_between_attempts_witness:
  "download_one env_raising Map.empty ''000002&x'' =
     Inr (outcome ''error'' ''000002'',
        \<lparr>files = Map.empty,
         trace = [Jitter 0, Fetch 0 ''000002.SZ'', Caught 0] @ Backoff 0 #
                 [Jitter 1, Fetch 1 ''000002.SZ'', Caught 1, Backoff 1,
                  Jitter 2, Fetch 2 ''000002.SZ'', Caught 2]\<rparr>)
   \<and> Suc 0 < max_retries
   \<and> filter is_Backoff [Jitter 0, Fetch 0 ''000002.SZ'', Caught 0, Backoff 0,
                  Jitter 1, Fetch 1 ''000002.SZ'', Caught 1, Backoff 1,
                  Jitter 2, Fetch 2 ''000002.SZ'', Caught 2] = [Backoff 0, Backoff 1]"
proof -
  let ?tr = "[Jitter 0, Fetch 0 ''000002.SZ'', Caught 0, Backoff 0,
                  Jitter 1, Fetch 1 ''000002.SZ'', Caught 1, Backoff 1,
                  Jitter 2, Fetch 2 ''000002.SZ'', Caught 2]"
  note t = backoff_only_between_attempts [OF run_raising]
  have d: "trace \<lparr>files = Map.empty, trace = ?tr\<rparr>
      = [Jitter 0, Fetch 0 ''000002.SZ'', Caught 0] @ Backoff 0 #
                 [Jitter 1, Fetch 1 ''000002.SZ'', Caught 1, Backoff 1,
                  Jitter 2, Fetch 2 ''000002.SZ'', Caught 2]"
    by simp
  from t [THEN conjunct1, rule_format, OF d] have 1: "Suc 0 < max_retries" by simp
  have "\<forall>n<max_retries. Caught n \<in> set (trace \<lparr>files = Map.empty, trace = ?tr\<rparr>)"
    by (auto simp: max_retries_def less_Suc_eq numeral_3_eq_3)
  with t [THEN conjunct2] have 2: "filter is_Backoff ?tr = [Backoff 0, Backoff 1]"
    by simp
  from run_raising 1 2 show ?thesis by simp
qed

subsection \<open>C6\<close>

text \<open>
  C6. For an input string without the separator, \<^verbatim>\<open>download_one\<close> returns one
  outcome with status error, raises nothing, runs no attempt and leaves the file
  system as it was; a run of \<^verbatim>\<open>main\<close> on that item alone ends with the statistics
  of one failure.
\<close>

theorem malformed_identifier_gives_error:
  assumes "CHR ''&'' \<notin> set item"
  shows "(\<exists>res. download_one e fs item = Inr (res, \<lparr>files = fs, trace = []\<rparr>)
            \<and> res ''status'' = Some ''error'')
       \<and> main envs fs [item] = Inr \<lparr>total = 1, success = 0, fail = 1\<rparr>"
proof -
  have d: "download_one (envs 0) fs item = Inr (outcome ''error'' item, \<lparr>files = fs, trace = []\<rparr>)"
    using assms by (rule download_one_malformed)
  have "get_status (outcome ''error'' item) \<in> tags"
    by (simp add: get_status_outcome tags_def)
  then have "aggregate [item] [outcome ''error'' item] = Inr \<lparr>total = 1, success = 0, fail = 1\<rparr>"
    by (simp add: aggregate_valid get_status_outcome)
  with d have "main envs fs [item] = Inr \<lparr>total = 1, success = 0, fail = 1\<rparr>"
    by (simp add: main_def)
  with download_one_malformed [OF assms, of e fs] show ?thesis
    by (simp add: outcome_status)
qed

text \<open>C6 on the string \<^verbatim>\<open>600519\<close>.\<close>

theorem malformed_identifier_gives_error_witness:
  "download_one env_ok Map.empty ''600519''
     = Inr (outcome ''error'' ''600519'', \<lparr>files = Map.empty, trace = []\<rparr>)
   \<and> main (\<lambda>k. env_ok) Map.empty [''600519''] = Inr \<lparr>total = 1, success = 0, fail = 1\<rparr>"
proof -
  have h: "CHR ''&'' \<notin> set ''600519''" by simp
  from malformed_identifier_gives_error [OF h, of env_ok Map.empty "\<lambda>k. env_ok"] show ?thesis
    by (auto simp: download_one_malformed)
qed

subsection \<open>C7\<close>

text \<open>
  C7. The reduction of lines 133 to 153 gives the same result on every two
  lists of outcomes that are permutations of each other, also when the list of
  input items is permuted with them.
\<close>

theorem aggregate_order_independent:
  "mset outs = mset outs' \<Longrightarrow> mset items = mset items' \<Longrightarrow>
   aggregate items outs = aggregate items' outs'"
proof -
  assume o: "mset outs = mset outs'" and i: "mset items = mset items'"
  from i have "length items = length items'"
    by (rule mset_eq_length)
  then have d: "download_stats items = download_stats items'"
    by (simp add: fun_eq_iff download_stats_def split: option.splits)
  show ?thesis
    unfolding aggregate_def d tally_perm [OF o] by (rule refl)
qed

text \<open>C7 on two outcomes in both orders.\<close>

theorem aggregate_order_independent_witness:
  "aggregate [''600519&x'', ''000002&y''] [outcome ''success'' ''600519'', outcome ''error'' ''000002'']
     = aggregate [''000002&y'', ''600519&x''] [outcome ''error'' ''000002'', outcome ''success'' ''600519'']
   \<and> aggregate [''000002&y'', ''600519&x''] [outcome ''error'' ''000002'', outcome ''success'' ''600519'']
     = Inr \<lparr>total = 2, success = 1, fail = 1\<rparr>"
proof -
  have o: "mset [outcome ''success'' ''600519'', outcome ''error'' ''000002'']
      = mset [outcome ''error'' ''000002'', outcome ''success'' ''600519'']"
    by (simp add: add_mset_commute)
  have i: "mset [''600519&x'', ''000002&y''] = mset [''000002&y'', ''600519&x'']"
    by (simp add: add_mset_commute)
  have "aggregate [''000002&y'', ''600519&x''] [outcome ''error'' ''000002'', outcome ''success'' ''600519'']
     = Inr \<lparr>total = 2, success = 1, fail = 1\<rparr>"
    by (simp add: aggregate_def stats_init_def get_status_def outcome_def download_stats_def)
  with aggregate_order_independent [OF o i] show ?thesis by simp
qed

subsection \<open>C8\<close>

text \<open>
  C8. An item is split at its first separator only: when the code holds no
  separator, the name is everything after the first one, whatever it contains.
  The outcome of the call carries that code; the call writes at no other path
  than \<^verbatim>\<open>DATA_DIR\<close> joined with code, underscore, name and \<^verbatim>\<open>.csv\<close>, changes no
  other path, and on the outcome success that path holds the text of a fetched
  frame.
\<close>

theorem split_at_first_separator:
  assumes "CHR ''&'' \<notin> set code"
  shows "split_once CHR ''&'' (code @ ''&'' @ name) = [code, name]
       \<and> (\<forall>res s. download_one e fs (code @ ''&'' @ name) = Inr (res, s) \<longrightarrow>
            res ''code'' = Some code
            \<and> (\<forall>n q. Write n q \<in> set (trace s) \<longrightarrow>
                  q = path_join (DATA_DIR e) (code @ ''_'' @ name @ ''.csv''))
            \<and> (\<forall>q. q \<noteq> path_join (DATA_DIR e) (code @ ''_'' @ name @ ''.csv'') \<longrightarrow>
                  files s q = fs q)
            \<and> (res ''status'' = Some ''success'' \<longrightarrow>
                  (\<exists>n fr. history e (symbol_of code) n = Returns (Some fr)
                     \<and> files s (path_join (DATA_DIR e) (code @ ''_'' @ name @ ''.csv''))
                         = Some \<lparr>mtime = write_time e n, content = csv fr\<rparr>)))"
proof (intro conjI allI impI)
  show "split_once CHR ''&'' (code @ ''&'' @ name) = [code, name]"
    using assms by (simp add: split_once_first)
next
  fix res s
  assume d: "download_one e fs (code @ ''&'' @ name) = Inr (res, s)"
  let ?p = "path_join (DATA_DIR e) (code @ ''_'' @ name @ ''.csv'')"
  have p: "out_path_of e code name = ?p" by (simp add: out_path_of_def)
  have "res ''code'' = Some code
      \<and> (\<forall>n q. Write n q \<in> set (trace s) \<longrightarrow> q = ?p)
      \<and> (\<forall>q. q \<noteq> ?p \<longrightarrow> files s q = fs q)
      \<and> (res ''status'' = Some ''success'' \<longrightarrow>
            (\<exists>n fr. history e (symbol_of code) n = Returns (Some fr)
               \<and> files s ?p = Some \<lparr>mtime = write_time e n, content = csv fr\<rparr>))"
  proof (cases rule: download_one_wf_cases [where e = e and fs = fs and name = name, OF assms])
    case 1
    with d show ?thesis by (auto simp: outcome_def)
  next
    case (2 res' s')
    with d have eq: "res' = res" "s' = s" by simp_all
    note l = 2(2) [unfolded eq p]
    from retry_loop_result [OF l] have 1: "res ''code'' = Some code"
      by (auto simp: outcome_code)
    from loop_writes [OF l] have 2: "\<forall>n q. Write n q \<in> set (trace s) \<longrightarrow> q = ?p"
      by auto
    from loop_frame [OF l] have 3: "\<forall>q. q \<noteq> ?p \<longrightarrow> files s q = fs q"
      by auto
    have "files \<lparr>files = fs, trace = []\<rparr> ?p = fs ?p"
      by simp
    from loop_artifact [OF l this]
    have 4: "res ''status'' = Some ''success'' \<longrightarrow>
            (\<exists>n fr. history e (symbol_of code) n = Returns (Some fr)
               \<and> files s ?p = Some \<lparr>mtime = write_time e n, content = csv fr\<rparr>)"
      using retry_loop_result [OF l] by (auto simp: status_eq outcome_eq)
    from 1 2 3 4 show ?thesis by blast
  qed
  then show "res ''code'' = Some code"
    and "\<And>n q. Write n q \<in> set (trace s) \<Longrightarrow> q = ?p"
    and "\<And>q. q \<noteq> ?p \<Longrightarrow> files s q = fs q"
    and "res ''status'' = Some ''success'' \<Longrightarrow>
          \<exists>n fr. history e (symbol_of code) n = Returns (Some fr)
             \<and> files s ?p = Some \<lparr>mtime = write_time e n, content = csv fr\<rparr>"
    by blast+
qed

text \<open>C8 on an item whose name holds a separator.\<close>

theorem split_at_first_separator_witness:
  "split_once CHR ''&'' ''600519&A&B'' = [''600519'', ''A&B'']
   \<and> download_one env_ok Map.empty ''600519&A&B''
       = Inr (outcome ''success'' ''600519'',
           \<lparr>files = [''/data/600519_A&B.csv'' \<mapsto> \<lparr>mtime = 10001, content = ''date,close''\<rparr>],
            trace = [Jitter 0, Fetch 0 ''600519.SS'', Write 0 ''/data/600519_A&B.csv'']\<rparr>)
   \<and> path_join (DATA_DIR env_ok) (''600519'' @ ''_'' @ ''A&B'' @ ''.csv'') = ''/data/600519_A&B.csv''"
proof -
  have h: "CHR ''&'' \<notin> set ''600519''" by simp
  have r: "download_one env_ok Map.empty (''600519'' @ ''&'' @ ''A&B'')
       = Inr (outcome ''success'' ''600519'',
           \<lparr>files = [''/data/600519_A&B.csv'' \<mapsto> \<lparr>mtime = 10001, content = ''date,close''\<rparr>],
            trace = [Jitter 0, Fetch 0 ''600519.SS'', Write 0 ''/data/600519_A&B.csv'']\<rparr>)"
    by (simp add: run_defs env_ok_def)
  note t = split_at_first_separator [OF h, of "''A&B''" env_ok Map.empty]
  from t have 1: "split_once CHR ''&'' ''600519&A&B'' = [''600519'', ''A&B'']" by simp
  from t [THEN conjunct2, rule_format, OF r, THEN conjunct2, THEN conjunct1, rule_format,
      of 0 "''/data/600519_A&B.csv''"]
  have 2: "path_join (DATA_DIR env_ok) (''600519'' @ ''_'' @ ''A&B'' @ ''.csv'') = ''/data/600519_A&B.csv''"
    by simp
  from 1 r 2 show ?thesis by simp
qed

subsection \<open>C9\<close>

text \<open>
  C9 as stated fails. Attempt 0 fetches a text of 2000 bytes and its write fails
  after 1500 bytes; attempts 1 and 2 fetch no rows. The outcome is empty, and yet
  an artifact of 1500 bytes stands at the artifact path, where there was none.
  A freshness check 100 seconds later takes it for fresh, while it finds nothing
  fresh on the file system of a symbol that was never attempted.
\<close>

theorem empty_outcome_after_partial_write:
  "download_one env_lost Map.empty ''000002&x'' =
   Inr (outcome ''empty'' ''000002'',
        \<lparr>files = [''/data/000002_x.csv'' \<mapsto> \<lparr>mtime = 100, content = replicate 1500 CHR ''x''\<rparr>],
         trace = [Jitter 0, Fetch 0 ''000002.SZ'', Write 0 ''/data/000002_x.csv'', Caught 0, Backoff 0,
                  Jitter 1, Fetch 1 ''000002.SZ'', Jitter 2, Fetch 2 ''000002.SZ'']\<rparr>)
   \<and> fresh (env_lost\<lparr>clock := 200\<rparr>)
        [''/data/000002_x.csv'' \<mapsto> \<lparr>mtime = 100, content = replicate 1500 CHR ''x''\<rparr>]
        ''/data/000002_x.csv''
   \<and> \<not> fresh (env_lost\<lparr>clock := 200\<rparr>) Map.empty ''/data/000002_x.csv''"
  by (simp add: run_lost fresh_def DATA_EXPIRY_SECONDS_def)

text \<open>
  C9, amended. When the outcome is empty and no write of the call failed partway
  (every write that the call began failed at the open), the file system after the call
  is the file system before it: no artifact is written, and every later
  freshness check gives what it would give had the symbol never been attempted.
\<close>

theorem empty_outcome_writes_nothing:
  assumes "download_one e fs item = Inr (res, s)"
    and "res ''status'' = Some ''empty''"
    and "\<forall>n q j. Write n q \<in> set (trace s) \<longrightarrow> write_ends e n \<noteq> FailsAfter j"
  shows "files s = fs \<and> (\<forall>e' q. fresh e' (files s) q = fresh e' fs q)"
proof -
  have "files s = fs"
  proof (cases rule: download_one_cases [of item e fs])
    case malformed
    with assms(1,2) show ?thesis by (auto simp: outcome_def)
  next
    case (cached code name)
    with assms(1,2) show ?thesis by (auto simp: outcome_def)
  next
    case (fetched code name res' s')
    with assms(1) have eq: "res' = res" "s' = s" by simp_all
    note l = fetched(3) [unfolded eq]
    let ?p = "out_path_of e code name"
    have "files \<lparr>files = fs, trace = []\<rparr> ?p = fs ?p"
      by simp
    from loop_artifact [OF l this] retry_loop_result [OF l] assms(2)
    have "files s ?p = fs ?p
      \<or> (\<exists>n j. write_ends e n = FailsAfter j \<and> Write n ?p \<in> set (trace s))"
      by (auto simp: status_eq outcome_eq)
    with assms(3) have "files s ?p = fs ?p"
      by blast
    moreover from loop_frame [OF l] have "\<And>q. q \<noteq> ?p \<Longrightarrow> files s q = fs q"
      by simp
    ultimately show ?thesis
      by (intro ext) metis
  qed
  then show ?thesis by simp
qed

text \<open>
  C9, amended, on a symbol whose first answer has rows that the disk refuses to
  open a file for, and whose later answers have no rows.
\<close>

theorem empty_outcome_writes_nothing_witness:
  "download_one env_refused fs_old ''000002&x'' =
     Inr (outcome ''empty'' ''000002'',
        \<lparr>files = fs_old,
         trace = [Jitter 0, Fetch 0 ''000002.SZ'', Write 0 ''/data/000002_x.csv'', Caught 0,
                  Backoff 0, Jitter 1, Fetch 1 ''000002.SZ'', Jitter 2, Fetch 2 ''000002.SZ'']\<rparr>)"
proof -
  let ?tr = "[Jitter 0, Fetch 0 ''000002.SZ'', Write 0 ''/data/000002_x.csv'', Caught 0,
                  Backoff 0, Jitter 1, Fetch 1 ''000002.SZ'', Jitter 2, Fetch 2 ''000002.SZ'']"
  have "\<exists>fs'. download_one env_refused fs_old ''000002&x'' =
     Inr (outcome ''empty'' ''000002'', \<lparr>files = fs', trace = ?tr\<rparr>)"
    by (simp add: run_defs env_refused_def fs_old_def)
  then obtain fs' where r: "download_one env_refused fs_old ''000002&x'' =
     Inr (outcome ''empty'' ''000002'', \<lparr>files = fs', trace = ?tr\<rparr>)" ..
  have s: "outcome ''empty'' ''000002'' ''status'' = Some ''empty''"
    by (simp add: outcome_def)
  have w: "\<forall>n q j. Write n q \<in> set (trace \<lparr>files = fs', trace = ?tr\<rparr>)
      \<longrightarrow> write_ends env_refused n \<noteq> FailsAfter j"
    by (simp add: env_refused_def)
  from empty_outcome_writes_nothing [OF r s w] have "fs' = fs_old" by simp
  with r show ?thesis by simp
qed

subsection \<open>C10\<close>

text \<open>
  C10. For an input string without the separator, the outcome that
  \<^verbatim>\<open>download_one\<close> returns carries the whole input string as its code.
\<close>

theorem malformed_identifier_code:
  assumes "CHR ''&'' \<notin> set item" and "download_one e fs item = Inr (res, s)"
  shows "res ''code'' = Some item"
  using assms by (auto simp: download_one_malformed outcome_code)

text \<open>C10 on the string \<^verbatim>\<open>600519\<close>.\<close>

theorem malformed_identifier_code_witness:
  "download_one env_ok Map.empty ''600519''
     = Inr (outcome ''error'' ''600519'', \<lparr>files = Map.empty, trace = []\<rparr>)
   \<and> outcome ''error'' ''600519'' ''code'' = Some ''600519''"
proof -
  have h: "CHR ''&'' \<notin> set ''600519''" by simp
  have r: "download_one env_ok Map.empty ''600519''
     = Inr (outcome ''error'' ''600519'', \<lparr>files = Map.empty, trace = []\<rparr>)"
    using h by (rule download_one_malformed)
  from malformed_identifier_code [OF h r] r show ?thesis by simp
qed

end
